theory Spec2Isabelle
  imports Complex_Main "HOL-Library.Word"
begin

section \<open>JavaScript values used by the monitor\<close>

text \<open>
  A JavaScript string is a sequence of UTF-16 code units, and \<open>s.length\<close> counts
  code units.  String literals of the script are ASCII and are written with \<open>lit\<close>.
\<close>

type_synonym jschar = "16 word"
type_synonym jsstring = "jschar list"

definition lit :: "string \<Rightarrow> jsstring" where
  "lit s = map of_char s"

text \<open>Template-literal rendering of a non-negative integer (an array length).\<close>

fun decimal :: "nat \<Rightarrow> jsstring" where
  "decimal n =
     (if n < 10 then [of_nat (48 + n)]
      else decimal (n div 10) @ [of_nat (48 + n mod 10)])"

declare decimal.simps [simp del]

text \<open>
  Truthiness of a value that is a string, \<open>null\<close> or \<open>undefined\<close>:
  \<open>None\<close> stands for \<open>null\<close>/\<open>undefined\<close>, and the empty string is falsy.
\<close>

definition truthy :: "jsstring option \<Rightarrow> bool" where
  "truthy v = (case v of None \<Rightarrow> False | Some s \<Rightarrow> s \<noteq> [])"

text \<open>
  A \<open>Date\<close> object: \<open>Some t\<close> is the time value in milliseconds, \<open>None\<close> is
  an Invalid Date (time value NaN).  A relational comparison with NaN is false.
\<close>

type_synonym jsdate = "int option"

definition dateGt :: "jsdate \<Rightarrow> jsdate \<Rightarrow> bool" where
  "dateGt a b = (case a of None \<Rightarrow> False
                 | Some x \<Rightarrow> (case b of None \<Rightarrow> False | Some y \<Rightarrow> y < x))"

section \<open>The regular expressions \<open>/^! Key: (.+)$/m\<close>\<close>

text \<open>
  With the \<open>m\<close> flag, \<open>^\<close> and \<open>$\<close> match at the line terminators
  LF, CR, U+2028 and U+2029, and \<open>.\<close> matches every code unit but those four.
  The first match is therefore on the first line that starts with the prefix and has
  at least one more code unit; the group captures the rest of that line.
\<close>

definition isLineTerminator :: "jschar \<Rightarrow> bool" where
  "isLineTerminator c = (c = 0x0A \<or> c = 0x0D \<or> c = 0x2028 \<or> c = 0x2029)"

fun splitLines :: "jsstring \<Rightarrow> jsstring list" where
  "splitLines [] = [] # []"
| "splitLines (c # cs) =
     (if isLineTerminator c then [] # splitLines cs
      else (case splitLines cs of [] \<Rightarrow> [c] # [] | l # ls \<Rightarrow> (c # l) # ls))"

definition stripPrefix :: "jsstring \<Rightarrow> jsstring \<Rightarrow> jsstring option" where
  "stripPrefix p l =
     (if take (length p) l = p then Some (drop (length p) l) else None)"

fun firstMatch :: "jsstring \<Rightarrow> jsstring list \<Rightarrow> jsstring option" where
  "firstMatch p [] = None"
| "firstMatch p (l # ls) =
     (case stripPrefix p l of
        None \<Rightarrow> firstMatch p ls
      | Some [] \<Rightarrow> firstMatch p ls
      | Some (c # cs) \<Rightarrow> Some (c # cs))"

definition matchLine :: "jsstring \<Rightarrow> jsstring \<Rightarrow> jsstring option" where
  "matchLine p content = firstMatch p (splitLines content)"

section \<open>Data model\<close>

text \<open>The response headers kept by \<open>fetchList\<close> (\<open>headers.get\<close> gives a string or \<open>null\<close>).\<close>

record headers =
  h_lastModified :: "jsstring option"
  h_etag :: "jsstring option"
  h_contentLength :: "jsstring option"
  h_cacheControl :: "jsstring option"

text \<open>One entry of \<open>metadata.json\<close>; a field missing from a loaded document is \<open>None\<close>.\<close>

record metadata_entry =
  m_lastModified :: "jsstring option"
  m_etag :: "jsstring option"
  m_version :: "jsstring option"
  m_lastChecked :: "jsstring option"
  m_size :: "nat option"

text \<open>
  One element of \<open>updatedLists\<close>.  The field \<open>ageHours\<close>, a floating-point number
  formatted with \<open>toFixed(1)\<close>, is left out.
\<close>

record update_event =
  u_filename :: jsstring
  u_url :: jsstring
  u_hash :: jsstring
  u_version :: "jsstring option"
  u_lastModified :: jsstring
  u_serverLastModified :: "jsstring option"
  u_etag :: "jsstring option"
  u_size :: nat
  u_changeReason :: jsstring
  u_expires :: "jsstring option"

record version_info =
  v_version :: "jsstring option"
  v_lastModified :: "jsstring option"
  v_expires :: "jsstring option"

type_synonym hashes = "jsstring \<rightharpoonup> jsstring"
type_synonym metadata = "jsstring \<rightharpoonup> metadata_entry"

section \<open>The environment of one run\<close>

text \<open>
  Everything the script takes from outside: the platform functions (SHA-256 as a hex
  digest, \<open>Date\<close> parsing and \<open>toISOString\<close>), the network, the clock, and the
  file system.  The clock is read at three places of the loop body that matter for the
  state: the throttle test, the fallback of \<open>parseLastModified\<close>, and the
  \<open>lastChecked\<close> stamp.  Each file name is visited once in a cycle, so a reading is
  named by the file name and the place.
\<close>

datatype clock_site = AtThrottle | AtParse | AtLastChecked

record env =
  sha256hex :: "jsstring \<Rightarrow> jsstring"
  dateParse :: "jsstring \<Rightarrow> jsdate"
  toISOString :: "int \<Rightarrow> jsstring"
  fetch :: "jsstring \<Rightarrow> jsstring + (jsstring \<times> headers)"
  clock :: "jsstring \<Rightarrow> clock_site \<Rightarrow> int"
  writeListOk :: "jsstring \<Rightarrow> bool"
  hashesFile :: "hashes option"
  metadataFile :: "metadata option"
  saveHashesOk :: bool
  saveMetadataOk :: bool
  writeSummaryOk :: bool
  githubActions :: bool
  actionsCoreOk :: bool

section \<open>The monitor\<close>

definition EASYLIST_URLS :: "(jsstring \<times> jsstring) list" where
  "EASYLIST_URLS =
     [(lit ''easylist.txt'', lit ''https://easylist.to/easylist/easylist.txt''),
      (lit ''easyprivacy.txt'', lit ''https://easylist.to/easylist/easyprivacy.txt'')]"

text \<open>\<open>loadHashes\<close> and \<open>loadMetadata\<close>: a missing or unreadable file gives \<open>{}\<close>.\<close>

definition loadHashes :: "env \<Rightarrow> hashes" where
  "loadHashes E = (case hashesFile E of None \<Rightarrow> Map.empty | Some m \<Rightarrow> m)"

definition loadMetadata :: "env \<Rightarrow> metadata" where
  "loadMetadata E = (case metadataFile E of None \<Rightarrow> Map.empty | Some m \<Rightarrow> m)"

definition calculateHash :: "env \<Rightarrow> jsstring \<Rightarrow> jsstring" where
  "calculateHash E content = sha256hex E content"

text \<open>\<open>fetchList\<close> logs and rethrows; \<open>Inl\<close> carries the error message.\<close>

definition fetchList :: "env \<Rightarrow> jsstring \<Rightarrow> jsstring + (jsstring \<times> headers)" where
  "fetchList E url = fetch E url"

definition extractVersion :: "jsstring \<Rightarrow> version_info" where
  "extractVersion content =
     \<lparr> v_version = matchLine (lit ''! Version: '') content,
       v_lastModified = matchLine (lit ''! Last modified: '') content,
       v_expires = matchLine (lit ''! Expires: '') content \<rparr>"

text \<open>
  \<open>parseLastModified\<close>.  \<open>serverTime\<close> and \<open>contentTime\<close> are \<open>null\<close> or a
  \<open>Date\<close>; a \<open>Date\<close> is truthy even when it is invalid.  \<open>now\<close> is the reading of
  \<open>new Date()\<close> in the last line.
\<close>

definition parseLastModified :: "env \<Rightarrow> int \<Rightarrow> jsstring option \<Rightarrow> jsstring \<Rightarrow> jsdate" where
  "parseLastModified E now lastModifiedHeader listContent =
     (let serverTime =
            (case lastModifiedHeader of
               None \<Rightarrow> None
             | Some h \<Rightarrow> if h \<noteq> [] then Some (dateParse E h) else None);
          contentTime =
            (case matchLine (lit ''! Last modified: '') listContent of
               None \<Rightarrow> None
             | Some v \<Rightarrow> Some (dateParse E v))
      in case serverTime of
           Some s \<Rightarrow>
             (case contentTime of
                Some c \<Rightarrow> if dateGt s c then s else c
              | None \<Rightarrow> s)
         | None \<Rightarrow>
             (case contentTime of
                Some c \<Rightarrow> c
              | None \<Rightarrow> Some now))"

text \<open>The throttle test at the head of the loop body.\<close>

definition throttled :: "env \<Rightarrow> jsstring \<Rightarrow> metadata_entry option \<Rightarrow> bool" where
  "throttled E filename oldMetadata =
     (case oldMetadata of
        None \<Rightarrow> False
      | Some om \<Rightarrow>
          truthy (m_lastChecked om) \<and>
          (case m_lastChecked om of
             None \<Rightarrow> False
           | Some lc \<Rightarrow>
               (case dateParse E lc of
                  None \<Rightarrow> False
                | Some lastChecked \<Rightarrow>
                    real_of_int (clock E filename AtThrottle - lastChecked) / (1000 * 60) < 90)))"

text \<open>
  The three detection methods of the loop body, in their order; the result is
  \<open>(hasChanged, changeReason)\<close> as they stand before the test
  \<open>hasChanged || !oldHash\<close>.
\<close>

definition addReason :: "jsstring \<Rightarrow> jsstring \<Rightarrow> jsstring" where
  "addReason changeReason fragment =
     changeReason @ (if changeReason \<noteq> [] then lit '' and '' else []) @ fragment"

definition detectChange ::
  "env \<Rightarrow> jsstring option \<Rightarrow> metadata_entry option \<Rightarrow> jsstring \<Rightarrow> jsdate \<Rightarrow> headers
     \<Rightarrow> bool \<times> jsstring" where
  "detectChange E oldHash oldMetadata newHash lastModified hdrs =
     (let (hasChanged, changeReason) =
            (if oldHash \<noteq> Some newHash then (True, lit ''content hash changed'')
             else (False, []));
          (hasChanged, changeReason) =
            (case oldMetadata of
               None \<Rightarrow> (hasChanged, changeReason)
             | Some om \<Rightarrow>
                 (case m_lastModified om of
                    None \<Rightarrow> (hasChanged, changeReason)
                  | Some old \<Rightarrow>
                      if old \<noteq> [] \<and> dateGt lastModified (dateParse E old)
                      then (True, addReason changeReason (lit ''timestamp newer''))
                      else (hasChanged, changeReason)));
          (hasChanged, changeReason) =
            (case oldMetadata of
               None \<Rightarrow> (hasChanged, changeReason)
             | Some om \<Rightarrow>
                 if truthy (h_etag hdrs) \<and> truthy (m_etag om) \<and> h_etag hdrs \<noteq> m_etag om
                 then (True, addReason changeReason (lit ''ETag changed''))
                 else (hasChanged, changeReason))
      in (hasChanged, changeReason))"

text \<open>The test that opens the update branch, and the reason printed on the console.\<close>

definition reportedChanged :: "jsstring option \<Rightarrow> bool \<times> jsstring \<Rightarrow> bool" where
  "reportedChanged oldHash d = (fst d \<or> \<not> truthy oldHash)"

definition loggedReason :: "jsstring \<Rightarrow> jsstring" where
  "loggedReason changeReason =
     (if changeReason \<noteq> [] then changeReason else lit ''first time'')"

text \<open>What the \<open>catch\<close> of the loop body can receive.\<close>

datatype failure = FetchError jsstring | RangeError | WriteError

datatype io =
    MkdirLists
  | Fetch jsstring
  | WriteList jsstring jsstring
  | SaveHashes hashes
  | SaveMetadata metadata
  | WriteSummary "update_event list"
  | LogThrottled jsstring
  | LogUpdated jsstring jsstring
  | LogUpToDate jsstring
  | LogError jsstring failure

text \<open>
  The variables of \<open>checkForUpdates\<close> that the loop changes, and \<open>trace\<close>: the
  calls made to the outside world and the console lines, in the order they happen.
\<close>

record loop_state =
  updatedLists :: "update_event list"
  newHashes :: hashes
  newMetadata :: metadata
  trace :: "io list"

definition emit :: "io list \<Rightarrow> loop_state \<Rightarrow> loop_state" where
  "emit es st = st\<lparr>trace := trace st @ es\<rparr>"

text \<open>
  The update branch of the loop body.  \<open>toISOString\<close> of an Invalid Date throws a
  RangeError (first at the console line that prints the date), and the write of the
  list file can fail; both are caught by the \<open>catch\<close> of the loop body, before
  anything is pushed or assigned.
\<close>

definition recordUpdate ::
  "env \<Rightarrow> jsstring \<Rightarrow> jsstring \<Rightarrow> jsstring \<Rightarrow> headers \<Rightarrow> jsstring \<Rightarrow> version_info
     \<Rightarrow> jsdate \<Rightarrow> jsstring \<Rightarrow> loop_state \<Rightarrow> loop_state" where
  "recordUpdate E filename url content hdrs newHash versionInfo lastModified changeReason st =
     (case lastModified of
        None \<Rightarrow>
          emit [LogUpdated filename (loggedReason changeReason), LogError filename RangeError] st
      | Some t \<Rightarrow>
          if \<not> writeListOk E filename
          then emit [LogUpdated filename (loggedReason changeReason),
                     WriteList filename content, LogError filename WriteError] st
          else
            (emit [LogUpdated filename (loggedReason changeReason),
                   WriteList filename content] st)
            \<lparr> updatedLists := updatedLists st @
                 [\<lparr> u_filename = filename,
                    u_url = url,
                    u_hash = newHash,
                    u_version = v_version versionInfo,
                    u_lastModified = toISOString E t,
                    u_serverLastModified = h_lastModified hdrs,
                    u_etag = h_etag hdrs,
                    u_size = length content,
                    u_changeReason = changeReason,
                    u_expires = v_expires versionInfo \<rparr>],
              newHashes := (newHashes st)(filename \<mapsto> newHash),
              newMetadata := (newMetadata st)(filename \<mapsto>
                 \<lparr> m_lastModified = Some (toISOString E t),
                    m_etag = h_etag hdrs,
                    m_version = v_version versionInfo,
                    m_lastChecked = Some (toISOString E (clock E filename AtLastChecked)),
                    m_size = Some (length content) \<rparr>) \<rparr>)"

text \<open>The else branch: only \<open>lastChecked\<close> of an existing entry is replaced.\<close>

definition recordCheck ::
  "env \<Rightarrow> jsstring \<Rightarrow> metadata_entry option \<Rightarrow> loop_state \<Rightarrow> loop_state" where
  "recordCheck E filename oldMetadata st =
     (case oldMetadata of
        None \<Rightarrow> emit [LogUpToDate filename] st
      | Some om \<Rightarrow>
          (emit [LogUpToDate filename] st)
          \<lparr> newMetadata := (newMetadata st)(filename \<mapsto>
               om\<lparr> m_lastChecked := Some (toISOString E (clock E filename AtLastChecked)) \<rparr>) \<rparr>)"

text \<open>One iteration of the loop over \<open>Object.entries(EASYLIST_URLS)\<close>.\<close>

definition processEntry ::
  "env \<Rightarrow> hashes \<Rightarrow> metadata \<Rightarrow> loop_state \<Rightarrow> jsstring \<times> jsstring \<Rightarrow> loop_state" where
  "processEntry E currentHashes currentMetadata st entry =
     (let filename = fst entry;
          url = snd entry;
          oldMetadata = currentMetadata filename
      in if throttled E filename oldMetadata then emit [LogThrottled filename] st
         else
           (case fetchList E url of
              Inl err \<Rightarrow> emit [Fetch url, LogError filename (FetchError err)] st
            | Inr (content, hdrs) \<Rightarrow>
                (let newHash = calculateHash E content;
                     versionInfo = extractVersion content;
                     lastModified =
                       parseLastModified E (clock E filename AtParse) (h_lastModified hdrs) content;
                     oldHash = currentHashes filename;
                     d = detectChange E oldHash oldMetadata newHash lastModified hdrs
                 in if reportedChanged oldHash d
                    then recordUpdate E filename url content hdrs newHash versionInfo
                           lastModified (snd d) (emit [Fetch url] st)
                    else recordCheck E filename oldMetadata (emit [Fetch url] st))))"

definition processEntries ::
  "env \<Rightarrow> hashes \<Rightarrow> metadata \<Rightarrow> (jsstring \<times> jsstring) list \<Rightarrow> loop_state \<Rightarrow> loop_state" where
  "processEntries E currentHashes currentMetadata entries st =
     foldl (processEntry E currentHashes currentMetadata) st entries"

text \<open>
  The end of \<open>checkForUpdates\<close>.  The summary's \<open>timestamp\<close>, one more reading of
  the clock, is left out.  A failing write throws out of \<open>checkForUpdates\<close>.
\<close>

record check_result =
  hasUpdates :: bool
  r_updatedLists :: "update_event list"
  r_summary :: "(nat \<times> update_event list) option"

record cycle =
  returned :: "check_result option"
  final :: loop_state

definition persist :: "env \<Rightarrow> loop_state \<Rightarrow> cycle" where
  "persist E st =
     (if 0 < length (updatedLists st) then
        if \<not> saveHashesOk E
        then \<lparr> returned = None, final = emit [SaveHashes (newHashes st)] st \<rparr>
        else if \<not> saveMetadataOk E
        then \<lparr> returned = None,
               final = emit [SaveHashes (newHashes st), SaveMetadata (newMetadata st)] st \<rparr>
        else if \<not> writeSummaryOk E
        then \<lparr> returned = None,
               final = emit [SaveHashes (newHashes st), SaveMetadata (newMetadata st),
                             WriteSummary (updatedLists st)] st \<rparr>
        else \<lparr> returned = Some \<lparr> hasUpdates = True, r_updatedLists = updatedLists st,
                   r_summary = Some (length (updatedLists st), updatedLists st) \<rparr>,
               final = emit [SaveHashes (newHashes st), SaveMetadata (newMetadata st),
                             WriteSummary (updatedLists st)] st \<rparr>
      else
        if \<not> saveMetadataOk E
        then \<lparr> returned = None, final = emit [SaveMetadata (newMetadata st)] st \<rparr>
        else \<lparr> returned = Some \<lparr> hasUpdates = False, r_updatedLists = [], r_summary = None \<rparr>,
               final = emit [SaveMetadata (newMetadata st)] st \<rparr>)"

definition initialState :: "env \<Rightarrow> loop_state" where
  "initialState E =
     \<lparr> updatedLists = [], newHashes = loadHashes E, newMetadata = loadMetadata E,
       trace = [MkdirLists] \<rparr>"

definition checkForUpdates :: "env \<Rightarrow> cycle" where
  "checkForUpdates E =
     persist E
       (processEntries E (loadHashes E) (loadMetadata E) EASYLIST_URLS (initialState E))"

text \<open>\<open>Array.prototype.join\<close> and \<open>generateCommitMessage\<close>.\<close>

fun joinWith :: "jsstring \<Rightarrow> jsstring list \<Rightarrow> jsstring" where
  "joinWith sep [] = []"
| "joinWith sep [x] = x"
| "joinWith sep (x # y # ys) = x @ sep @ joinWith sep (y # ys)"

definition versionSuffix :: "jsstring \<Rightarrow> jsstring \<Rightarrow> jsstring option \<Rightarrow> jsstring" where
  "versionSuffix opening closing version =
     (case version of
        None \<Rightarrow> []
      | Some v \<Rightarrow> if v \<noteq> [] then opening @ v @ closing else [])"

definition bullet :: "update_event \<Rightarrow> jsstring" where
  "bullet list = lit ''- '' @ u_filename list @ versionSuffix (lit '' (v'') (lit '')'') (u_version list)"

definition generateCommitMessage :: "update_event list \<Rightarrow> jsstring" where
  "generateCommitMessage events =
     (case events of
        [list] \<Rightarrow> lit ''Update '' @ u_filename list @ versionSuffix (lit '' to v'') [] (u_version list)
      | _ \<Rightarrow> lit ''Update '' @ decimal (length events) @ lit '' EasyList files'' @ [0x0A, 0x0A]
               @ joinWith [0x0A] (map bullet events))"

text \<open>
  \<open>main\<close>: the exit code and the outputs set for GitHub Actions
  (\<open>has_updates\<close>, \<open>commit_message\<close>, \<open>updated_count\<close>).  Loading
  \<open>@actions/core\<close> and setting an output can throw inside the \<open>try\<close>.
\<close>

record run =
  exitCode :: nat
  outputs :: "(jsstring \<times> jsstring \<times> jsstring) option"
  cycleOf :: cycle

definition setOutputs :: "env \<Rightarrow> cycle \<Rightarrow> jsstring \<times> jsstring \<times> jsstring \<Rightarrow> run" where
  "setOutputs E c out =
     (if githubActions E then
        if actionsCoreOk E then \<lparr> exitCode = 0, outputs = Some out, cycleOf = c \<rparr>
        else \<lparr> exitCode = 1, outputs = None, cycleOf = c \<rparr>
      else \<lparr> exitCode = 0, outputs = None, cycleOf = c \<rparr>)"

definition main :: "env \<Rightarrow> run" where
  "main E =
     (let c = checkForUpdates E
      in case returned c of
           None \<Rightarrow> \<lparr> exitCode = 1, outputs = None, cycleOf = c \<rparr>
         | Some result \<Rightarrow>
             if hasUpdates result then
               (let commitMessage = generateCommitMessage (r_updatedLists result)
                in setOutputs E c
                     (lit ''true'', commitMessage, decimal (length (r_updatedLists result))))
             else setOutputs E c (lit ''false'', [], lit ''0''))"

section \<open>Notions used to state the properties\<close>

text \<open>The writes of the two state documents among the calls of a cycle.\<close>

definition isStateWrite :: "io \<Rightarrow> bool" where
  "isStateWrite x =
     (case x of SaveHashes m \<Rightarrow> True | SaveMetadata m \<Rightarrow> True | _ \<Rightarrow> False)"


text \<open>
  The byte count of a string, as the spec's \<open>size\<close> has it: the length of its UTF-8
  encoding, which is what \<open>fs.writeFile\<close> stores in the list file.  A code unit below
  U+0080 takes one byte, one below U+0800 two, a surrogate pair four, and any other
  code unit (a lone surrogate is written as U+FFFD) three.
\<close>

definition isHighSurrogate :: "jschar \<Rightarrow> bool" where
  "isHighSurrogate c = (0xD800 \<le> c \<and> c \<le> 0xDBFF)"

definition isLowSurrogate :: "jschar \<Rightarrow> bool" where
  "isLowSurrogate c = (0xDC00 \<le> c \<and> c \<le> 0xDFFF)"

fun utf8ByteLength :: "jsstring \<Rightarrow> nat" where
  "utf8ByteLength [] = 0"
| "utf8ByteLength (c # cs) =
     (if c < 0x80 then 1 + utf8ByteLength cs
      else if c < 0x800 then 2 + utf8ByteLength cs
      else if isHighSurrogate c then
        (case cs of
           [] \<Rightarrow> 3
         | d # ds \<Rightarrow> if isLowSurrogate d then 4 + utf8ByteLength ds else 3 + utf8ByteLength cs)
      else 3 + utf8ByteLength cs)"

section \<open>Sample runs\<close>

text \<open>
  Concrete environments for the instances below.  The digest is a stand-in that never
  collides; date parsing and \<open>toISOString\<close> agree with the platform on the few
  strings and times the sample runs use (2024-01-01, 00:00 to 03:00 UTC), and the
  clock reads 03:00 throughout.
\<close>

definition sampleDigest :: "jsstring \<Rightarrow> jsstring" where
  "sampleDigest content = lit ''sha256:'' @ content"

definition sampleParse :: "jsstring \<Rightarrow> jsdate" where
  "sampleParse s =
     (if s = lit ''2024-01-01T00:00:00.000Z'' then Some 1704067200000
      else if s = lit ''2024-01-01T01:00:00.000Z'' then Some 1704070800000
      else if s = lit ''2024-01-01T02:00:00.000Z'' then Some 1704074400000
      else if s = lit ''2024-01-01T03:00:00.000Z'' then Some 1704078000000
      else if s = lit ''Mon, 01 Jan 2024 00:00:00 GMT'' then Some 1704067200000
      else if s = lit ''01 Jan 2024 01:00 UTC'' then Some 1704070800000
      else None)"

definition sampleISO :: "int \<Rightarrow> jsstring" where
  "sampleISO t =
     (if t = 1704067200000 then lit ''2024-01-01T00:00:00.000Z''
      else if t = 1704070800000 then lit ''2024-01-01T01:00:00.000Z''
      else if t = 1704074400000 then lit ''2024-01-01T02:00:00.000Z''
      else lit ''2024-01-01T03:00:00.000Z'')"

definition noHeaders :: headers where
  "noHeaders = \<lparr> h_lastModified = None, h_etag = None, h_contentLength = None,
                 h_cacheControl = None \<rparr>"

definition stampedHeaders :: headers where
  "stampedHeaders = \<lparr> h_lastModified = Some (lit ''Mon, 01 Jan 2024 00:00:00 GMT''),
                      h_etag = Some (lit ''abc123''), h_contentLength = None,
                      h_cacheControl = None \<rparr>"

definition plainList :: jsstring where
  "plainList = lit ''[Adblock Plus 2.0]''"

definition stampedList :: jsstring where
  "stampedList = lit ''! Version: 1.2'' @ [0x0A] @ lit ''! Last modified: 01 Jan 2024 01:00 UTC''"

definition accentedList :: jsstring where
  "accentedList = lit ''! Title: caf'' @ [0xE9]"

text \<open>A network that serves \<open>easylist.txt\<close> and fails on every other URL.\<close>

definition serveEasylist :: "jsstring \<Rightarrow> headers \<Rightarrow> jsstring \<Rightarrow> jsstring + (jsstring \<times> headers)" where
  "serveEasylist content hdrs url =
     (if url = lit ''https://easylist.to/easylist/easylist.txt'' then Inr (content, hdrs)
      else Inl (lit ''HTTP 503: Service Unavailable''))"

definition sampleEnv ::
  "(jsstring \<Rightarrow> jsstring + (jsstring \<times> headers)) \<Rightarrow> hashes option \<Rightarrow> metadata option \<Rightarrow> env" where
  "sampleEnv net hs ms =
     \<lparr> sha256hex = sampleDigest, dateParse = sampleParse, toISOString = sampleISO,
       fetch = net, clock = (\<lambda>filename site. 1704078000000), writeListOk = (\<lambda>filename. True),
       hashesFile = hs, metadataFile = ms,
       saveHashesOk = True, saveMetadataOk = True, writeSummaryOk = True,
       githubActions = False, actionsCoreOk = True \<rparr>"

text \<open>A first run: no state documents yet.\<close>

definition firstRun :: "jsstring \<Rightarrow> env" where
  "firstRun content = sampleEnv (serveEasylist content noHeaders) None None"

text \<open>
  A later run: \<open>easylist.txt\<close> was stored with the given content, last-modified
  string, ETag and \<open>lastChecked\<close> string, and is served again with the given headers.
\<close>

definition priorEntry :: "jsstring \<Rightarrow> jsstring \<Rightarrow> jsstring option \<Rightarrow> jsstring \<Rightarrow> metadata_entry" where
  "priorEntry content lastModified etag lastChecked =
     \<lparr> m_lastModified = Some lastModified, m_etag = etag,
       m_version = matchLine (lit ''! Version: '') content,
       m_lastChecked = Some lastChecked, m_size = Some (length content) \<rparr>"

definition laterRun :: "jsstring \<Rightarrow> headers \<Rightarrow> metadata_entry \<Rightarrow> env" where
  "laterRun content hdrs entry =
     sampleEnv (serveEasylist content hdrs)
       (Some [lit ''easylist.txt'' \<mapsto> sampleDigest content])
       (Some [lit ''easylist.txt'' \<mapsto> entry])"


text \<open>
  Three later runs at 03:00.  In \<open>unchangedRun\<close> the list, its timestamps and its ETag
  are as stored and the last check was at 00:00; \<open>throttledRun\<close> is the same with the
  last check at 02:00; in \<open>unstampedRun\<close> the list is as stored and neither it nor
  the response carries a timestamp or an ETag.
\<close>

definition unchangedRun :: env where
  "unchangedRun =
     laterRun stampedList stampedHeaders
       (priorEntry stampedList (lit ''2024-01-01T01:00:00.000Z'') (Some (lit ''abc123''))
          (lit ''2024-01-01T00:00:00.000Z''))"

definition throttledRun :: env where
  "throttledRun =
     laterRun stampedList stampedHeaders
       (priorEntry stampedList (lit ''2024-01-01T01:00:00.000Z'') (Some (lit ''abc123''))
          (lit ''2024-01-01T02:00:00.000Z''))"

definition unstampedRun :: env where
  "unstampedRun =
     laterRun plainList noHeaders
       (priorEntry plainList (lit ''2024-01-01T00:00:00.000Z'') None
          (lit ''2024-01-01T00:00:00.000Z''))"

text \<open>
  Two runs in which only \<open>easyprivacy.txt\<close> can be fetched: a first run, and a run in
  which \<open>easylist.txt\<close> is stored and was checked at 02:00.
\<close>

definition serveEasyprivacy :: "jsstring \<Rightarrow> headers \<Rightarrow> jsstring \<Rightarrow> jsstring + (jsstring \<times> headers)" where
  "serveEasyprivacy content hdrs url =
     (if url = lit ''https://easylist.to/easylist/easyprivacy.txt'' then Inr (content, hdrs)
      else Inl (lit ''HTTP 503: Service Unavailable''))"

definition easylistDownRun :: env where
  "easylistDownRun = sampleEnv (serveEasyprivacy plainList noHeaders) None None"

definition mixedRun :: env where
  "mixedRun =
     sampleEnv (serveEasyprivacy plainList noHeaders)
       (Some [lit ''easylist.txt'' \<mapsto> sampleDigest stampedList])
       (Some [lit ''easylist.txt'' \<mapsto>
          priorEntry stampedList (lit ''2024-01-01T01:00:00.000Z'') (Some (lit ''abc123''))
            (lit ''2024-01-01T02:00:00.000Z'')])"

text \<open>
  A list whose "! Last modified:" line does not parse, and a first run in which the
  server sends a Last-Modified header that does not parse.
\<close>

definition badStampList :: jsstring where
  "badStampList = lit ''! Last modified: not a date''"

definition garbageHeaders :: headers where
  "garbageHeaders = \<lparr> h_lastModified = Some (lit ''garbage''), h_etag = None,
                      h_contentLength = None, h_cacheControl = None \<rparr>"

definition garbageRun :: env where
  "garbageRun = sampleEnv (serveEasylist plainList garbageHeaders) None None"

section \<open>Facts about the loop\<close>

lemmas sample_defs =
  sampleEnv_def firstRun_def laterRun_def priorEntry_def serveEasylist_def sampleDigest_def
  sampleParse_def sampleISO_def noHeaders_def stampedHeaders_def plainList_def
  stampedList_def accentedList_def unchangedRun_def throttledRun_def unstampedRun_def
  serveEasyprivacy_def easylistDownRun_def mixedRun_def
  badStampList_def garbageHeaders_def garbageRun_def

lemmas monitor_defs =
  checkForUpdates_def processEntries_def processEntry_def persist_def initialState_def
  EASYLIST_URLS_def loadHashes_def loadMetadata_def throttled_def fetchList_def
  calculateHash_def extractVersion_def parseLastModified_def detectChange_def
  reportedChanged_def recordUpdate_def recordCheck_def emit_def matchLine_def
  stripPrefix_def isLineTerminator_def truthy_def dateGt_def addReason_def
  loggedReason_def

lemma emit_fields [simp]:
  "updatedLists (emit es st) = updatedLists st"
  "newHashes (emit es st) = newHashes st"
  "newMetadata (emit es st) = newMetadata st"
  "trace (emit es st) = trace st @ es"
  by (simp_all add: emit_def)

lemma recordCheck_fields:
  "updatedLists (recordCheck E f om st) = updatedLists st"
  "newHashes (recordCheck E f om st) = newHashes st"
  "trace (recordCheck E f om st) = trace st @ [LogUpToDate f]"
  "g \<noteq> f \<Longrightarrow> newMetadata (recordCheck E f om st) g = newMetadata st g"
  by (simp_all add: recordCheck_def split: option.splits)

lemma recordUpdate_frame:
  "g \<noteq> f \<Longrightarrow> newHashes (recordUpdate E f u c h nh vi lm r st) g = newHashes st g"
  "g \<noteq> f \<Longrightarrow> newMetadata (recordUpdate E f u c h nh vi lm r st) g = newMetadata st g"
  by (simp_all add: recordUpdate_def split: option.splits)

lemma recordUpdate_trace:
  "\<exists>es. trace (recordUpdate E f u c h nh vi lm r st) = trace st @ es
     \<and> (\<forall>x\<in>set es. \<not> isStateWrite x \<and> (\<forall>w. x \<noteq> Fetch w))"
  by (simp add: recordUpdate_def isStateWrite_def split: option.splits)

text \<open>An iteration either pushes one event for its own file name and stores the new
  hash under it, or leaves \<open>updatedLists\<close> and \<open>newHashes\<close> as they are.\<close>

lemma recordUpdate_cases:
  "(updatedLists (recordUpdate E f u c h nh vi lm r st) = updatedLists st
      \<and> newHashes (recordUpdate E f u c h nh vi lm r st) = newHashes st)
   \<or> (\<exists>ev. updatedLists (recordUpdate E f u c h nh vi lm r st) = updatedLists st @ [ev]
         \<and> u_filename ev = f
         \<and> newHashes (recordUpdate E f u c h nh vi lm r st) = (newHashes st)(f \<mapsto> nh))"
  by (simp add: recordUpdate_def split: option.splits)

lemma processEntry_cases:
  "(updatedLists (processEntry E cH cM st e) = updatedLists st
      \<and> newHashes (processEntry E cH cM st e) = newHashes st)
   \<or> (\<exists>ev nh. updatedLists (processEntry E cH cM st e) = updatedLists st @ [ev]
         \<and> u_filename ev = fst e
         \<and> newHashes (processEntry E cH cM st e) = (newHashes st)(fst e \<mapsto> nh))"
proof (cases "throttled E (fst e) (cM (fst e))")
  case True
  then show ?thesis by (simp add: processEntry_def)
next
  case nt: False
  show ?thesis
  proof (cases "fetchList E (snd e)")
    case (Inl err)
    with nt show ?thesis by (simp add: processEntry_def)
  next
    case (Inr p)
    obtain c h where p: "p = (c, h)" by (cases p)
    let ?lm = "parseLastModified E (clock E (fst e) AtParse) (h_lastModified h) c"
    let ?d = "detectChange E (cH (fst e)) (cM (fst e)) (calculateHash E c) ?lm h"
    show ?thesis
    proof (cases "reportedChanged (cH (fst e)) ?d")
      case True
      with nt Inr p
      have "processEntry E cH cM st e =
          recordUpdate E (fst e) (snd e) c h (calculateHash E c) (extractVersion c) ?lm (snd ?d)
            (emit [Fetch (snd e)] st)"
        by (simp add: processEntry_def Let_def)
      then show ?thesis
        using recordUpdate_cases
          [of E "fst e" "snd e" c h "calculateHash E c" "extractVersion c" ?lm "snd ?d"
              "emit [Fetch (snd e)] st"]
        by auto
    next
      case False
      with nt Inr p show ?thesis
        by (simp add: processEntry_def Let_def recordCheck_fields)
    qed
  qed
qed

lemma processEntry_frame:
  "g \<noteq> fst e \<Longrightarrow> newHashes (processEntry E cH cM st e) g = newHashes st g"
  "g \<noteq> fst e \<Longrightarrow> newMetadata (processEntry E cH cM st e) g = newMetadata st g"
  by (simp_all add: processEntry_def Let_def recordCheck_fields recordUpdate_frame
      split: sum.splits prod.splits)

lemma processEntry_trace:
  "\<exists>es. trace (processEntry E cH cM st e) = trace st @ es
     \<and> (\<forall>x\<in>set es. \<not> isStateWrite x \<and> (\<forall>w. x = Fetch w \<longrightarrow> w = snd e))"
proof -
  obtain f u where e: "e = (f, u)" by (cases e)
  show ?thesis
  proof (cases "throttled E f (cM f)")
    case True
    then show ?thesis by (simp add: processEntry_def e isStateWrite_def)
  next
    case nt: False
    show ?thesis
    proof (cases "fetchList E u")
      case (Inl err)
      with nt show ?thesis by (simp add: processEntry_def e isStateWrite_def)
    next
      case (Inr p)
      obtain c h where p: "p = (c, h)" by (cases p)
      let ?st = "emit [Fetch u] st"
      let ?lm = "parseLastModified E (clock E f AtParse) (h_lastModified h) c"
      let ?d = "detectChange E (cH f) (cM f) (calculateHash E c) ?lm h"
      show ?thesis
      proof (cases "reportedChanged (cH f) ?d")
        case True
        obtain es where
          "trace (recordUpdate E f u c h (calculateHash E c) (extractVersion c) ?lm (snd ?d) ?st)
             = trace ?st @ es"
          and "\<forall>x\<in>set es. \<not> isStateWrite x \<and> (\<forall>w. x \<noteq> Fetch w)"
          using recordUpdate_trace by blast
        with nt Inr p True show ?thesis
          by (simp add: processEntry_def e Let_def isStateWrite_def)
      next
        case False
        with nt Inr p show ?thesis
          by (simp add: processEntry_def e Let_def isStateWrite_def recordCheck_fields)
      qed
    qed
  qed
qed

lemma processEntries_Nil [simp]: "processEntries E cH cM [] st = st"
  by (simp add: processEntries_def)

lemma processEntries_Cons [simp]:
  "processEntries E cH cM (e # es) st = processEntries E cH cM es (processEntry E cH cM st e)"
  by (simp add: processEntries_def)

lemma processEntries_append:
  "processEntries E cH cM (xs @ ys) st = processEntries E cH cM ys (processEntries E cH cM xs st)"
  by (simp add: processEntries_def)

lemma processEntries_frame:
  "g \<notin> fst ` set es \<Longrightarrow>
     newHashes (processEntries E cH cM es st) g = newHashes st g
     \<and> newMetadata (processEntries E cH cM es st) g = newMetadata st g"
  by (induction es arbitrary: st) (auto simp: processEntry_frame)

lemma processEntries_trace:
  "\<exists>evs. trace (processEntries E cH cM es st) = trace st @ evs
     \<and> (\<forall>x\<in>set evs. \<not> isStateWrite x \<and> (\<forall>w. x = Fetch w \<longrightarrow> w \<in> snd ` set es))"
proof (induction es arbitrary: st)
  case Nil
  then show ?case by simp
next
  case (Cons e es)
  obtain a where a: "trace (processEntry E cH cM st e) = trace st @ a"
    "\<forall>x\<in>set a. \<not> isStateWrite x \<and> (\<forall>w. x = Fetch w \<longrightarrow> w = snd e)"
    using processEntry_trace by blast
  obtain b where b: "trace (processEntries E cH cM es (processEntry E cH cM st e))
       = trace (processEntry E cH cM st e) @ b"
    "\<forall>x\<in>set b. \<not> isStateWrite x \<and> (\<forall>w. x = Fetch w \<longrightarrow> w \<in> snd ` set es)"
    using Cons.IH by blast
  have "trace (processEntries E cH cM (e # es) st) = trace st @ (a @ b)"
    using a b by simp
  moreover have "\<forall>x\<in>set (a @ b). \<not> isStateWrite x
      \<and> (\<forall>w. x = Fetch w \<longrightarrow> w \<in> snd ` set (e # es))"
    using a b by auto
  ultimately show ?case by blast
qed

text \<open>The keys of \<open>EASYLIST_URLS\<close> and its URLs are pairwise different.\<close>

lemma urls_distinct:
  "distinct (map fst EASYLIST_URLS)" "distinct (map snd EASYLIST_URLS)"
  by (simp_all add: EASYLIST_URLS_def lit_def)

lemma entry_split:
  assumes "distinct (map fst es)" and "(f, u) \<in> set es"
  shows "\<exists>xs ys. es = xs @ (f, u) # ys \<and> f \<notin> fst ` set xs \<and> f \<notin> fst ` set ys"
proof -
  obtain xs ys where es: "es = xs @ (f, u) # ys"
    using assms(2) by (auto dest: split_list)
  with assms(1) have "f \<notin> fst ` set xs \<and> f \<notin> fst ` set ys" by auto
  with es show ?thesis by blast
qed

text \<open>Events are only ever appended, each under the file name of its iteration.\<close>

lemma processEntries_events:
  "\<exists>more. updatedLists (processEntries E cH cM es st) = updatedLists st @ more
     \<and> u_filename ` set more \<subseteq> fst ` set es"
proof (induction es arbitrary: st)
  case Nil
  then show ?case by simp
next
  case (Cons e es)
  obtain a where a: "updatedLists (processEntry E cH cM st e) = updatedLists st @ a"
    "u_filename ` set a \<subseteq> {fst e}"
    using processEntry_cases [of E cH cM st e] by auto
  obtain b where b: "updatedLists (processEntries E cH cM es (processEntry E cH cM st e))
      = updatedLists (processEntry E cH cM st e) @ b" "u_filename ` set b \<subseteq> fst ` set es"
    using Cons.IH by blast
  have "updatedLists (processEntries E cH cM (e # es) st) = updatedLists st @ (a @ b)"
    using a b by simp
  moreover have "u_filename ` set (a @ b) \<subseteq> fst ` set (e # es)"
    using a b by auto
  ultimately show ?case by blast
qed

lemma processEntries_names:
  "u_filename ` set (updatedLists (processEntries E cH cM es st))
     \<subseteq> u_filename ` set (updatedLists st) \<union> fst ` set es"
proof -
  obtain more where "updatedLists (processEntries E cH cM es st) = updatedLists st @ more"
    "u_filename ` set more \<subseteq> fst ` set es"
    using processEntries_events by blast
  then show ?thesis by auto
qed

text \<open>An iteration that pushes an event leaves exactly that event under its file name.\<close>

lemma pushed_entry:
  assumes step: "\<And>st. updatedLists (processEntry E cH cM st (f, u)) = updatedLists st @ [ev]"
    and "distinct (map fst es)" and "(f, u) \<in> set es"
    and "f \<notin> u_filename ` set (updatedLists st)" and "u_filename ev = f"
  shows "filter (\<lambda>x. u_filename x = f) (updatedLists (processEntries E cH cM es st)) = [ev]"
proof -
  obtain xs ys where es: "es = xs @ (f, u) # ys" and xs: "f \<notin> fst ` set xs"
    and ys: "f \<notin> fst ` set ys"
    using entry_split [OF assms(2,3)] by blast
  let ?st1 = "processEntries E cH cM xs st"
  let ?st2 = "processEntry E cH cM ?st1 (f, u)"
  obtain a where a: "updatedLists ?st1 = updatedLists st @ a" "u_filename ` set a \<subseteq> fst ` set xs"
    using processEntries_events by blast
  obtain b where b: "updatedLists (processEntries E cH cM ys ?st2) = updatedLists ?st2 @ b"
    "u_filename ` set b \<subseteq> fst ` set ys"
    using processEntries_events by blast
  have all: "updatedLists (processEntries E cH cM es st) = updatedLists st @ a @ [ev] @ b"
    using a b by (simp add: es processEntries_append step)
  have "filter (\<lambda>x. u_filename x = f) (updatedLists st) = []"
    using assms(4) by (auto simp: filter_empty_conv)
  moreover have "filter (\<lambda>x. u_filename x = f) a = []"
    using a(2) xs by (auto simp: filter_empty_conv)
  moreover have "filter (\<lambda>x. u_filename x = f) b = []"
    using b(2) ys by (auto simp: filter_empty_conv)
  ultimately show ?thesis
    by (simp add: all assms(5))
qed

lemma processEntries_hashes:
  assumes "\<forall>f. f \<notin> u_filename ` set (updatedLists st) \<longrightarrow> newHashes st f = cH f"
  shows "\<forall>f. f \<notin> u_filename ` set (updatedLists (processEntries E cH cM es st))
           \<longrightarrow> newHashes (processEntries E cH cM es st) f = cH f"
  using assms
proof (induction es arbitrary: st)
  case Nil
  then show ?case by simp
next
  case (Cons e es)
  have "\<forall>f. f \<notin> u_filename ` set (updatedLists (processEntry E cH cM st e))
           \<longrightarrow> newHashes (processEntry E cH cM st e) f = cH f"
    using processEntry_cases [of E cH cM st e] Cons.prems by auto
  from Cons.IH [OF this] show ?case by simp
qed

text \<open>What the loop leaves under a key is what the iteration of that key leaves there.\<close>

lemma key_local:
  assumes "distinct (map fst es)" and "(f, u) \<in> set es"
  shows "\<exists>st1. newHashes st1 f = newHashes st f \<and> newMetadata st1 f = newMetadata st f
           \<and> newHashes (processEntries E cH cM es st) f
               = newHashes (processEntry E cH cM st1 (f, u)) f
           \<and> newMetadata (processEntries E cH cM es st) f
               = newMetadata (processEntry E cH cM st1 (f, u)) f"
proof -
  obtain xs ys where es: "es = xs @ (f, u) # ys" and xs: "f \<notin> fst ` set xs"
    and ys: "f \<notin> fst ` set ys"
    using entry_split [OF assms] by blast
  let ?st1 = "processEntries E cH cM xs st"
  have "newHashes ?st1 f = newHashes st f \<and> newMetadata ?st1 f = newMetadata st f"
    using processEntries_frame [OF xs] by simp
  moreover have "processEntries E cH cM es st
      = processEntries E cH cM ys (processEntry E cH cM ?st1 (f, u))"
    by (simp add: es processEntries_append)
  ultimately show ?thesis
    using processEntries_frame [OF ys] by metis
qed

text \<open>An iteration that only prints leaves no event, and its lines stay in the trace.\<close>

lemma silent_entry:
  assumes step: "\<And>st. processEntry E cH cM st (f, u) = emit evs st"
    and "distinct (map fst es)" and "(f, u) \<in> set es"
    and "f \<notin> u_filename ` set (updatedLists st)"
  shows "f \<notin> u_filename ` set (updatedLists (processEntries E cH cM es st))
     \<and> set evs \<subseteq> set (trace (processEntries E cH cM es st))"
proof -
  obtain xs ys where es: "es = xs @ (f, u) # ys" and xs: "f \<notin> fst ` set xs"
    and ys: "f \<notin> fst ` set ys"
    using entry_split [OF assms(2,3)] by blast
  let ?st1 = "processEntries E cH cM xs st"
  let ?st2 = "emit evs ?st1"
  have all: "processEntries E cH cM es st = processEntries E cH cM ys ?st2"
    by (simp add: es processEntries_append step)
  have "f \<notin> u_filename ` set (updatedLists ?st1)"
    using processEntries_names [of E cH cM xs st] xs assms(4) by auto
  then have "f \<notin> u_filename ` set (updatedLists (processEntries E cH cM ys ?st2))"
    using processEntries_names [of E cH cM ys ?st2] ys by auto
  moreover obtain b where "trace (processEntries E cH cM ys ?st2) = trace ?st2 @ b"
    using processEntries_trace by blast
  ultimately show ?thesis
    by (auto simp: all)
qed

lemma no_fetch:
  assumes step: "\<And>st. processEntry E cH cM st (f, u) = emit evs st"
    and evs: "Fetch u \<notin> set evs"
    and "distinct (map snd es)" and "(f, u) \<in> set es" and "Fetch u \<notin> set (trace st)"
  shows "Fetch u \<notin> set (trace (processEntries E cH cM es st))"
  using assms(3-5)
proof (induction es arbitrary: st)
  case Nil
  then show ?case by simp
next
  case (Cons e es)
  show ?case
  proof (cases "e = (f, u)")
    case True
    with Cons.prems have "u \<notin> snd ` set es" by force
    moreover obtain b where
      "trace (processEntries E cH cM es (emit evs st)) = trace (emit evs st) @ b"
      "\<forall>x\<in>set b. \<not> isStateWrite x \<and> (\<forall>w. x = Fetch w \<longrightarrow> w \<in> snd ` set es)"
      using processEntries_trace by blast
    ultimately show ?thesis
      using True step evs Cons.prems(3) by auto
  next
    case False
    with Cons.prems have mem: "(f, u) \<in> set es" and ne: "snd e \<noteq> u"
      by (auto simp: image_iff)
    obtain a where a: "trace (processEntry E cH cM st e) = trace st @ a"
      "\<forall>x\<in>set a. \<not> isStateWrite x \<and> (\<forall>w. x = Fetch w \<longrightarrow> w = snd e)"
      using processEntry_trace by blast
    have "Fetch u \<notin> set (trace (processEntry E cH cM st e))"
      using a ne Cons.prems(3) by auto
    with Cons.IH mem Cons.prems(1) show ?thesis by simp
  qed
qed




section \<open>Facts about a whole cycle\<close>

lemma persist_final:
  "updatedLists (final (persist E st)) = updatedLists st"
  "newHashes (final (persist E st)) = newHashes st"
  "newMetadata (final (persist E st)) = newMetadata st"
  by (simp_all add: persist_def)

lemma persist_trace:
  "\<exists>ws. trace (final (persist E st)) = trace st @ ws
      \<and> (\<forall>x\<in>set ws. (\<forall>w. x \<noteq> Fetch w) \<and> (\<forall>m. x = SaveHashes m \<longrightarrow> m = newHashes st)
            \<and> (\<forall>m. x = SaveMetadata m \<longrightarrow> m = newMetadata st))"
  by (simp add: persist_def)

lemma cycle_trace:
  "\<exists>evs ws. trace (final (checkForUpdates E)) = [MkdirLists] @ evs @ ws
     \<and> (\<forall>x\<in>set evs. \<not> isStateWrite x \<and> (\<forall>w. x = Fetch w \<longrightarrow> w \<in> snd ` set EASYLIST_URLS))
     \<and> (\<forall>x\<in>set ws. (\<forall>w. x \<noteq> Fetch w)
           \<and> (\<forall>m. x = SaveHashes m \<longrightarrow> m = newHashes (final (checkForUpdates E)))
           \<and> (\<forall>m. x = SaveMetadata m \<longrightarrow> m = newMetadata (final (checkForUpdates E))))"
proof -
  let ?st = "processEntries E (loadHashes E) (loadMetadata E) EASYLIST_URLS (initialState E)"
  obtain evs where evs: "trace ?st = trace (initialState E) @ evs"
    "\<forall>x\<in>set evs. \<not> isStateWrite x \<and> (\<forall>w. x = Fetch w \<longrightarrow> w \<in> snd ` set EASYLIST_URLS)"
    using processEntries_trace by blast
  obtain ws where ws: "trace (final (persist E ?st)) = trace ?st @ ws"
    "\<forall>x\<in>set ws. (\<forall>w. x \<noteq> Fetch w) \<and> (\<forall>m. x = SaveHashes m \<longrightarrow> m = newHashes ?st)
            \<and> (\<forall>m. x = SaveMetadata m \<longrightarrow> m = newMetadata ?st)"
    using persist_trace by blast
  have "trace (final (checkForUpdates E)) = [MkdirLists] @ evs @ ws"
    using evs ws by (simp add: checkForUpdates_def initialState_def)
  then show ?thesis
    using evs(2) ws(2) by (auto simp: checkForUpdates_def persist_final)
qed

text \<open>A state document is only ever written with the map the loop ended with.\<close>

lemma saved_maps:
  "SaveHashes m \<in> set (trace (final (checkForUpdates E)))
     \<Longrightarrow> m = newHashes (final (checkForUpdates E))"
  "SaveMetadata n \<in> set (trace (final (checkForUpdates E)))
     \<Longrightarrow> n = newMetadata (final (checkForUpdates E))"
proof -
  obtain evs ws where t: "trace (final (checkForUpdates E)) = [MkdirLists] @ evs @ ws"
    and evs: "\<forall>x\<in>set evs. \<not> isStateWrite x
                \<and> (\<forall>w. x = Fetch w \<longrightarrow> w \<in> snd ` set EASYLIST_URLS)"
    and ws: "\<forall>x\<in>set ws. (\<forall>w. x \<noteq> Fetch w)
           \<and> (\<forall>m. x = SaveHashes m \<longrightarrow> m = newHashes (final (checkForUpdates E)))
           \<and> (\<forall>m. x = SaveMetadata m \<longrightarrow> m = newMetadata (final (checkForUpdates E)))"
    using cycle_trace by blast
  have nh: "SaveHashes m \<notin> set evs" and nm: "SaveMetadata n \<notin> set evs"
    using evs by (auto simp: isStateWrite_def)
  show "SaveHashes m \<in> set (trace (final (checkForUpdates E)))
     \<Longrightarrow> m = newHashes (final (checkForUpdates E))"
    using t nh ws by auto
  show "SaveMetadata n \<in> set (trace (final (checkForUpdates E)))
     \<Longrightarrow> n = newMetadata (final (checkForUpdates E))"
    using t nm ws by auto
qed

lemma hashes_saved:
  "updatedLists (final (checkForUpdates E)) \<noteq> []
     \<Longrightarrow> SaveHashes (newHashes (final (checkForUpdates E)))
           \<in> set (trace (final (checkForUpdates E)))"
  by (auto simp: checkForUpdates_def persist_def)

lemma cycle_key_local:
  assumes "(f, u) \<in> set EASYLIST_URLS"
  shows "\<exists>st1. newHashes st1 f = loadHashes E f \<and> newMetadata st1 f = loadMetadata E f
           \<and> newHashes (final (checkForUpdates E)) f
               = newHashes (processEntry E (loadHashes E) (loadMetadata E) st1 (f, u)) f
           \<and> newMetadata (final (checkForUpdates E)) f
               = newMetadata (processEntry E (loadHashes E) (loadMetadata E) st1 (f, u)) f"
  using key_local [OF urls_distinct(1) assms, of "initialState E" E "loadHashes E" "loadMetadata E"]
  by (simp add: checkForUpdates_def persist_final initialState_def)

lemma cycle_no_fetch:
  assumes step: "\<And>st. processEntry E (loadHashes E) (loadMetadata E) st (f, u) = emit evs st"
    and evs: "Fetch u \<notin> set evs" and mem: "(f, u) \<in> set EASYLIST_URLS"
  shows "Fetch u \<notin> set (trace (final (checkForUpdates E)))"
proof -
  let ?st = "processEntries E (loadHashes E) (loadMetadata E) EASYLIST_URLS (initialState E)"
  have "Fetch u \<notin> set (trace ?st)"
    by (rule no_fetch [OF step evs urls_distinct(2) mem]) (simp add: initialState_def)
  moreover obtain ws where "trace (final (persist E ?st)) = trace ?st @ ws"
    "\<forall>x\<in>set ws. (\<forall>w. x \<noteq> Fetch w) \<and> (\<forall>m. x = SaveHashes m \<longrightarrow> m = newHashes ?st)
            \<and> (\<forall>m. x = SaveMetadata m \<longrightarrow> m = newMetadata ?st)"
    using persist_trace by blast
  ultimately show ?thesis
    by (auto simp: checkForUpdates_def)
qed

lemma cycle_silent_entry:
  assumes step: "\<And>st. processEntry E (loadHashes E) (loadMetadata E) st (f, u) = emit evs st"
    and mem: "(f, u) \<in> set EASYLIST_URLS"
  shows "f \<notin> u_filename ` set (updatedLists (final (checkForUpdates E)))
     \<and> set evs \<subseteq> set (trace (final (checkForUpdates E)))
     \<and> newHashes (final (checkForUpdates E)) f = loadHashes E f
     \<and> newMetadata (final (checkForUpdates E)) f = loadMetadata E f"
proof -
  let ?st = "processEntries E (loadHashes E) (loadMetadata E) EASYLIST_URLS (initialState E)"
  have "f \<notin> u_filename ` set (updatedLists ?st) \<and> set evs \<subseteq> set (trace ?st)"
    by (rule silent_entry [OF step urls_distinct(1) mem]) (simp add: initialState_def)
  moreover obtain ws where "trace (final (persist E ?st)) = trace ?st @ ws"
    using persist_trace by blast
  moreover obtain st1 where "newHashes st1 f = loadHashes E f"
    "newMetadata st1 f = loadMetadata E f"
    "newHashes (final (checkForUpdates E)) f
       = newHashes (processEntry E (loadHashes E) (loadMetadata E) st1 (f, u)) f"
    "newMetadata (final (checkForUpdates E)) f
       = newMetadata (processEntry E (loadHashes E) (loadMetadata E) st1 (f, u)) f"
    using cycle_key_local [OF mem] by blast
  ultimately show ?thesis
    by (auto simp: checkForUpdates_def persist_final step)
qed


lemma throttled_step:
  "throttled E f (cM f) \<Longrightarrow> processEntry E cH cM st (f, u) = emit [LogThrottled f] st"
  by (simp add: processEntry_def)

lemma throttled_ms:
  assumes "m_lastChecked om = Some lc" "lc \<noteq> []" "dateParse E lc = Some t"
    and "clock E f AtThrottle - t < 90 * 60 * 1000"
  shows "throttled E f (Some om)"
  using assms by (simp add: throttled_def truthy_def)

lemma failed_step:
  "\<not> throttled E f (cM f) \<Longrightarrow> fetch E u = Inl err \<Longrightarrow>
     processEntry E cH cM st (f, u) = emit [Fetch u, LogError f (FetchError err)] st"
  by (simp add: processEntry_def fetchList_def)

lemma detectChange_absent:
  "\<exists>rest. detectChange E None oldMetadata newHash lastModified hdrs
      = (True, lit ''content hash changed'' @ rest)"
  by (auto simp: detectChange_def addReason_def Let_def lit_def split: option.splits)

lemma utf8ByteLength_ascii:
  "\<forall>c\<in>set s. c < 0x80 \<Longrightarrow> utf8ByteLength s = length s"
  by (induction s) simp_all

section \<open>The change detector\<close>

text \<open>
  C1.  The claim: when no hash is stored for a resource, it is reported as changed and
  the reason is exactly "first time", whatever was fetched.  What the code does: the
  resource is reported as changed, but the comparison of hashes already fires on the
  absent hash, so the reason starts with "content hash changed" (the other two methods
  may add to it), the console prints that reason, and "first time" never is the reason.
\<close>

theorem absent_hash_reason:
  "reportedChanged None (detectChange E None oldMetadata newHash lastModified hdrs)
   \<and> fst (detectChange E None oldMetadata newHash lastModified hdrs)
   \<and> take 20 (snd (detectChange E None oldMetadata newHash lastModified hdrs))
        = lit ''content hash changed''
   \<and> loggedReason (snd (detectChange E None oldMetadata newHash lastModified hdrs))
        = snd (detectChange E None oldMetadata newHash lastModified hdrs)
   \<and> snd (detectChange E None oldMetadata newHash lastModified hdrs) \<noteq> lit ''first time''"
proof -
  obtain rest where d: "detectChange E None oldMetadata newHash lastModified hdrs
      = (True, lit ''content hash changed'' @ rest)"
    using detectChange_absent by blast
  show ?thesis
    by (simp add: d reportedChanged_def loggedReason_def lit_def)
qed

text \<open>A first run that fetches a list without any timestamp: the reason recorded in the
  event is "content hash changed".\<close>

theorem absent_hash_reason_first_run:
  "loadHashes (firstRun plainList) (lit ''easylist.txt'') = None
   \<and> reportedChanged None
        (detectChange (firstRun plainList) None None (calculateHash (firstRun plainList) plainList)
           (Some 1704078000000) noHeaders)
   \<and> snd (detectChange (firstRun plainList) None None (calculateHash (firstRun plainList) plainList)
           (Some 1704078000000) noHeaders) = lit ''content hash changed''
   \<and> map u_changeReason (updatedLists (final (checkForUpdates (firstRun plainList))))
        = [lit ''content hash changed'']"
proof -
  have "snd (detectChange (firstRun plainList) None None
           (calculateHash (firstRun plainList) plainList) (Some 1704078000000) noHeaders)
        = lit ''content hash changed''"
    by (simp add: detectChange_def)
  moreover have "map u_changeReason (updatedLists (final (checkForUpdates (firstRun plainList))))
        = [lit ''content hash changed'']"
    by (simp add: monitor_defs sample_defs lit_def Let_def)
  moreover have "loadHashes (firstRun plainList) (lit ''easylist.txt'') = None"
    by (simp add: loadHashes_def sample_defs)
  ultimately show ?thesis
    using absent_hash_reason [of "firstRun plainList" None
        "calculateHash (firstRun plainList) plainList" "Some 1704078000000" noHeaders]
    by simp
qed

text \<open>
  C2, as stated: stored hash equal to the hash of the fetched content, ETag and
  timestamp unchanged or absent, hence reported unchanged.  It fails when the fetch
  carries no timestamp at all: the effective time is then the current time, which is
  later than the stored \<open>lastModified\<close>.  In \<open>unstampedRun\<close> the content is the stored
  one, there is no ETag, no Last-Modified header and no "! Last modified:" line, and
  the resource is reported as changed with reason "timestamp newer".
\<close>

theorem same_content_reported_changed:
  "loadHashes unstampedRun (lit ''easylist.txt'') = Some (calculateHash unstampedRun plainList)
   \<and> fetch unstampedRun (lit ''https://easylist.to/easylist/easylist.txt'')
        = Inr (plainList, noHeaders)
   \<and> h_etag noHeaders = None \<and> h_lastModified noHeaders = None
   \<and> matchLine (lit ''! Last modified: '') plainList = None
   \<and> reportedChanged (loadHashes unstampedRun (lit ''easylist.txt''))
        (detectChange unstampedRun (loadHashes unstampedRun (lit ''easylist.txt''))
           (loadMetadata unstampedRun (lit ''easylist.txt''))
           (calculateHash unstampedRun plainList)
           (parseLastModified unstampedRun (clock unstampedRun (lit ''easylist.txt'') AtParse)
              (h_lastModified noHeaders) plainList)
           noHeaders)
   \<and> map u_changeReason (updatedLists (final (checkForUpdates unstampedRun)))
        = [lit ''timestamp newer'']"
  by (simp add: monitor_defs sample_defs lit_def Let_def)

text \<open>
  C2, amended.  If the stored hash is the hash of the fetched content, the ETag is the
  stored one or absent on either side, and either no \<open>lastModified\<close> is stored or the
  effective last-modified time of the fetch is not later than the stored one, then no
  method fires and the resource is reported unchanged.  Here \<open>lastModified\<close> is any
  value of the effective time; the loop passes the result of \<open>parseLastModified\<close>,
  which is the current time when the fetch carries no timestamp.  A SHA-256 hex digest
  is never the empty string.
\<close>

theorem same_content_unchanged:
  assumes "oldHash = Some (calculateHash E content)"
    and "calculateHash E content \<noteq> []"
    and "\<forall>om old. oldMetadata = Some om \<longrightarrow> m_lastModified om = Some old \<longrightarrow> old \<noteq> []
           \<longrightarrow> \<not> dateGt lastModified (dateParse E old)"
    and "\<forall>om. oldMetadata = Some om \<longrightarrow> truthy (h_etag hdrs) \<longrightarrow> truthy (m_etag om)
           \<longrightarrow> h_etag hdrs = m_etag om"
  shows "detectChange E oldHash oldMetadata (calculateHash E content) lastModified hdrs
           = (False, [])
     \<and> \<not> reportedChanged oldHash
           (detectChange E oldHash oldMetadata (calculateHash E content) lastModified hdrs)"
  using assms
  by (auto simp: detectChange_def reportedChanged_def truthy_def Let_def split: option.splits)

text \<open>In \<open>unchangedRun\<close> the stored timestamp is the one of the list body (01:00), the
  header's is older (00:00), and the ETag is the stored one.\<close>

theorem same_content_unchanged_witness:
  "loadHashes unchangedRun (lit ''easylist.txt'') = Some (calculateHash unchangedRun stampedList)
   \<and> calculateHash unchangedRun stampedList \<noteq> []
   \<and> parseLastModified unchangedRun 1704078000000 (h_lastModified stampedHeaders) stampedList
        = Some 1704070800000
   \<and> \<not> reportedChanged (loadHashes unchangedRun (lit ''easylist.txt''))
        (detectChange unchangedRun (loadHashes unchangedRun (lit ''easylist.txt''))
           (loadMetadata unchangedRun (lit ''easylist.txt''))
           (calculateHash unchangedRun stampedList)
           (parseLastModified unchangedRun 1704078000000 (h_lastModified stampedHeaders)
              stampedList)
           stampedHeaders)"
proof -
  have h1: "loadHashes unchangedRun (lit ''easylist.txt'')
      = Some (calculateHash unchangedRun stampedList)"
    by (simp add: loadHashes_def calculateHash_def sample_defs)
  have h2: "calculateHash unchangedRun stampedList \<noteq> []"
    by (simp add: calculateHash_def sample_defs lit_def)
  have lm: "parseLastModified unchangedRun 1704078000000 (h_lastModified stampedHeaders)
      stampedList = Some 1704070800000"
    by (simp add: monitor_defs sample_defs lit_def Let_def)
  have h3: "\<forall>om old. loadMetadata unchangedRun (lit ''easylist.txt'') = Some om
      \<longrightarrow> m_lastModified om = Some old \<longrightarrow> old \<noteq> []
      \<longrightarrow> \<not> dateGt (parseLastModified unchangedRun 1704078000000
                       (h_lastModified stampedHeaders) stampedList)
               (dateParse unchangedRun old)"
    unfolding lm by (auto simp: loadMetadata_def dateGt_def sample_defs lit_def)
  have h4: "\<forall>om. loadMetadata unchangedRun (lit ''easylist.txt'') = Some om
      \<longrightarrow> truthy (h_etag stampedHeaders) \<longrightarrow> truthy (m_etag om)
      \<longrightarrow> h_etag stampedHeaders = m_etag om"
    by (auto simp: loadMetadata_def sample_defs)
  from same_content_unchanged [OF h1 h2 h3 h4]
  have "\<not> reportedChanged (loadHashes unchangedRun (lit ''easylist.txt''))
        (detectChange unchangedRun (loadHashes unchangedRun (lit ''easylist.txt''))
           (loadMetadata unchangedRun (lit ''easylist.txt''))
           (calculateHash unchangedRun stampedList)
           (parseLastModified unchangedRun 1704078000000 (h_lastModified stampedHeaders)
              stampedList)
           stampedHeaders)"
    by (rule conjunct2)
  with h1 h2 lm show ?thesis by blast
qed

text \<open>
  The effective last-modified time of a fetch when what is present parses.  A header
  counts as present when it is a non-empty string, the body's timestamp when a line
  "! Last modified: ..." is matched.  With both present and both parsed to a time, the
  result is the later of the two; with one present it is that one's \<open>Date\<close>; with
  none it is the current time.
\<close>

lemma effective_last_modified:
  "(truthy (Some h) \<longrightarrow> matchLine (lit ''! Last modified: '') content = Some v \<longrightarrow>
      dateParse E h = Some a \<longrightarrow> dateParse E v = Some b \<longrightarrow>
      parseLastModified E now (Some h) content = Some (max a b))
   \<and> (truthy (Some h) \<longrightarrow> matchLine (lit ''! Last modified: '') content = None \<longrightarrow>
      parseLastModified E now (Some h) content = dateParse E h)
   \<and> (\<not> truthy hdr \<longrightarrow> matchLine (lit ''! Last modified: '') content = Some v \<longrightarrow>
      parseLastModified E now hdr content = dateParse E v)
   \<and> (\<not> truthy hdr \<longrightarrow> matchLine (lit ''! Last modified: '') content = None \<longrightarrow>
      parseLastModified E now hdr content = Some now)"
  by (auto simp: parseLastModified_def truthy_def dateGt_def Let_def max_def
      split: option.splits)

text \<open>
  C3.  The claim: the effective time is the later of the header's time and the body's
  timestamp when both are present, the one that is present otherwise, and the current
  time when neither is.  What the code does when the header is present and the body
  has a "! Last modified:" line that does not parse: the body's \<open>Date\<close> is an
  Invalid Date, which is truthy, the comparison with it is false, and the Invalid Date
  is returned, whatever the header's time is.  The comment above that code says
  "Use the more recent time, or fall back to available one".
\<close>

theorem invalid_body_date_returned:
  assumes "h \<noteq> []"
    and "matchLine (lit ''! Last modified: '') content = Some v"
    and "dateParse E v = None"
  shows "parseLastModified E now (Some h) content = None"
  using assms by (simp add: parseLastModified_def dateGt_def Let_def split: option.splits)

theorem invalid_body_date_returned_witness:
  "lit ''Mon, 01 Jan 2024 00:00:00 GMT'' \<noteq> []
   \<and> matchLine (lit ''! Last modified: '') badStampList = Some (lit ''not a date'')
   \<and> dateParse unchangedRun (lit ''Mon, 01 Jan 2024 00:00:00 GMT'') = Some 1704067200000
   \<and> dateParse unchangedRun (lit ''not a date'') = None
   \<and> parseLastModified unchangedRun 1704078000000
        (Some (lit ''Mon, 01 Jan 2024 00:00:00 GMT'')) badStampList = None"
proof -
  have h: "lit ''Mon, 01 Jan 2024 00:00:00 GMT'' \<noteq> []"
    by (simp add: lit_def)
  have m: "matchLine (lit ''! Last modified: '') badStampList = Some (lit ''not a date'')"
    by (simp add: matchLine_def stripPrefix_def isLineTerminator_def badStampList_def lit_def)
  have p1: "dateParse unchangedRun (lit ''Mon, 01 Jan 2024 00:00:00 GMT'') = Some 1704067200000"
    by (simp add: sample_defs lit_def)
  have p2: "dateParse unchangedRun (lit ''not a date'') = None"
    by (simp add: sample_defs lit_def)
  from invalid_body_date_returned [OF h m p2]
  have "parseLastModified unchangedRun 1704078000000
        (Some (lit ''Mon, 01 Jan 2024 00:00:00 GMT'')) badStampList = None" .
  with h m p1 p2 show ?thesis by blast
qed

section \<open>The commit message\<close>



section \<open>The cycle\<close>

text \<open>
  C4.  A tracked resource whose stored metadata has a \<open>lastChecked\<close> string that
  parses to a time less than 90 minutes before the clock reading of the throttle test
  is skipped: its URL is never fetched, its entries in \<open>newHashes\<close> and
  \<open>newMetadata\<close> at the end of the cycle are the loaded ones, and so are its entries
  in every state document the cycle writes.
\<close>

theorem throttled_resource_skipped:
  assumes mem: "(filename, url) \<in> set EASYLIST_URLS"
    and om: "loadMetadata E filename = Some om"
    and lc: "m_lastChecked om = Some lc" "lc \<noteq> []" "dateParse E lc = Some t"
    and recent: "clock E filename AtThrottle - t < 90 * 60 * 1000"
  shows "Fetch url \<notin> set (trace (final (checkForUpdates E)))
     \<and> newHashes (final (checkForUpdates E)) filename = loadHashes E filename
     \<and> newMetadata (final (checkForUpdates E)) filename = loadMetadata E filename
     \<and> (\<forall>m. SaveHashes m \<in> set (trace (final (checkForUpdates E)))
            \<longrightarrow> m filename = loadHashes E filename)
     \<and> (\<forall>m. SaveMetadata m \<in> set (trace (final (checkForUpdates E)))
            \<longrightarrow> m filename = loadMetadata E filename)"
proof -
  have thr: "throttled E filename (loadMetadata E filename)"
    using throttled_ms [OF lc recent] om by simp
  have step: "\<And>st. processEntry E (loadHashes E) (loadMetadata E) st (filename, url)
      = emit [LogThrottled filename] st"
    using thr by (rule throttled_step)
  have nf: "Fetch url \<notin> set (trace (final (checkForUpdates E)))"
    by (rule cycle_no_fetch [OF step _ mem]) simp
  have eq: "newHashes (final (checkForUpdates E)) filename = loadHashes E filename"
    "newMetadata (final (checkForUpdates E)) filename = loadMetadata E filename"
    using cycle_silent_entry [OF step mem] by simp_all
  show ?thesis
    using nf eq saved_maps by blast
qed

text \<open>In \<open>throttledRun\<close>, \<open>easylist.txt\<close> was checked at 02:00 and the clock reads 03:00.\<close>

theorem throttled_resource_skipped_witness:
  "(lit ''easylist.txt'', lit ''https://easylist.to/easylist/easylist.txt'') \<in> set EASYLIST_URLS
   \<and> m_lastChecked (the (loadMetadata throttledRun (lit ''easylist.txt'')))
        = Some (lit ''2024-01-01T02:00:00.000Z'')
   \<and> dateParse throttledRun (lit ''2024-01-01T02:00:00.000Z'') = Some 1704074400000
   \<and> clock throttledRun (lit ''easylist.txt'') AtThrottle - 1704074400000 < 90 * 60 * 1000
   \<and> Fetch (lit ''https://easylist.to/easylist/easylist.txt'')
        \<notin> set (trace (final (checkForUpdates throttledRun)))
   \<and> newHashes (final (checkForUpdates throttledRun)) (lit ''easylist.txt'')
        = loadHashes throttledRun (lit ''easylist.txt'')
   \<and> newMetadata (final (checkForUpdates throttledRun)) (lit ''easylist.txt'')
        = loadMetadata throttledRun (lit ''easylist.txt'')"
proof -
  let ?om = "priorEntry stampedList (lit ''2024-01-01T01:00:00.000Z'') (Some (lit ''abc123''))
          (lit ''2024-01-01T02:00:00.000Z'')"
  have mem: "(lit ''easylist.txt'', lit ''https://easylist.to/easylist/easylist.txt'')
      \<in> set EASYLIST_URLS"
    by (simp add: EASYLIST_URLS_def)
  have om: "loadMetadata throttledRun (lit ''easylist.txt'') = Some ?om"
    by (simp add: loadMetadata_def throttledRun_def laterRun_def sampleEnv_def)
  have lc: "m_lastChecked ?om = Some (lit ''2024-01-01T02:00:00.000Z'')"
    "lit ''2024-01-01T02:00:00.000Z'' \<noteq> []"
    by (simp_all add: priorEntry_def lit_def)
  have p: "dateParse throttledRun (lit ''2024-01-01T02:00:00.000Z'') = Some 1704074400000"
    by (simp add: sample_defs lit_def)
  have c: "clock throttledRun (lit ''easylist.txt'') AtThrottle - 1704074400000 < 90 * 60 * 1000"
    by (simp add: sample_defs)
  show ?thesis
    using throttled_resource_skipped [OF mem om lc p c] mem om lc(1) p c by simp
qed




text \<open>
  C6.  A tracked resource that is fetched and for which no change is detected, with an
  entry in the loaded metadata: its entry at the end of the cycle, and in the metadata
  document the cycle writes, is the old entry with \<open>lastChecked\<close> replaced by the
  current time as an ISO string; \<open>lastModified\<close>, \<open>etag\<close>, \<open>version\<close> and
  \<open>size\<close> are the old ones.
\<close>

theorem unchanged_keeps_metadata:
  assumes mem: "(filename, url) \<in> set EASYLIST_URLS"
    and om: "loadMetadata E filename = Some om"
    and nt: "\<not> throttled E filename (Some om)"
    and fetched: "fetch E url = Inr (content, hdrs)"
    and same: "\<not> reportedChanged (loadHashes E filename)
        (detectChange E (loadHashes E filename) (Some om) (calculateHash E content)
           (parseLastModified E (clock E filename AtParse) (h_lastModified hdrs) content) hdrs)"
  shows "newMetadata (final (checkForUpdates E)) filename
       = Some (om\<lparr>m_lastChecked := Some (toISOString E (clock E filename AtLastChecked))\<rparr>)
     \<and> (\<forall>m. SaveMetadata m \<in> set (trace (final (checkForUpdates E))) \<longrightarrow>
          (\<exists>entry. m filename = Some entry
             \<and> m_lastChecked entry = Some (toISOString E (clock E filename AtLastChecked))
             \<and> m_lastModified entry = m_lastModified om \<and> m_etag entry = m_etag om
             \<and> m_version entry = m_version om \<and> m_size entry = m_size om))
     \<and> newHashes (final (checkForUpdates E)) filename = loadHashes E filename"
proof -
  obtain st1 where st1: "newHashes st1 filename = loadHashes E filename"
    "newMetadata (final (checkForUpdates E)) filename
       = newMetadata (processEntry E (loadHashes E) (loadMetadata E) st1 (filename, url)) filename"
    "newHashes (final (checkForUpdates E)) filename
       = newHashes (processEntry E (loadHashes E) (loadMetadata E) st1 (filename, url)) filename"
    using cycle_key_local [OF mem] by blast
  have step: "processEntry E (loadHashes E) (loadMetadata E) st1 (filename, url)
      = recordCheck E filename (Some om) (emit [Fetch url] st1)"
    using om nt fetched same by (simp add: processEntry_def fetchList_def Let_def)
  have new: "newMetadata (final (checkForUpdates E)) filename
       = Some (om\<lparr>m_lastChecked := Some (toISOString E (clock E filename AtLastChecked))\<rparr>)"
    by (simp add: st1(2) step recordCheck_def)
  have hashes: "newHashes (final (checkForUpdates E)) filename = loadHashes E filename"
    by (simp add: st1(3) step recordCheck_fields st1(1))
  have "\<exists>entry. m filename = Some entry
             \<and> m_lastChecked entry = Some (toISOString E (clock E filename AtLastChecked))
             \<and> m_lastModified entry = m_lastModified om \<and> m_etag entry = m_etag om
             \<and> m_version entry = m_version om \<and> m_size entry = m_size om"
    if "SaveMetadata m \<in> set (trace (final (checkForUpdates E)))" for m
  proof -
    from that have "m = newMetadata (final (checkForUpdates E))" by (rule saved_maps(2))
    with new show ?thesis by simp
  qed
  with new hashes show ?thesis by blast
qed

text \<open>In \<open>unchangedRun\<close>, \<open>easylist.txt\<close> is served as stored; the clock reads 03:00.\<close>

theorem unchanged_keeps_metadata_witness:
  "\<not> throttled unchangedRun (lit ''easylist.txt'') (loadMetadata unchangedRun (lit ''easylist.txt''))
   \<and> fetch unchangedRun (lit ''https://easylist.to/easylist/easylist.txt'')
        = Inr (stampedList, stampedHeaders)
   \<and> newMetadata (final (checkForUpdates unchangedRun)) (lit ''easylist.txt'')
       = Some \<lparr> m_lastModified = Some (lit ''2024-01-01T01:00:00.000Z''),
                m_etag = Some (lit ''abc123''), m_version = Some (lit ''1.2''),
                m_lastChecked = Some (lit ''2024-01-01T03:00:00.000Z''), m_size = Some 53 \<rparr>"
proof -
  let ?om = "priorEntry stampedList (lit ''2024-01-01T01:00:00.000Z'') (Some (lit ''abc123''))
          (lit ''2024-01-01T00:00:00.000Z'')"
  have mem: "(lit ''easylist.txt'', lit ''https://easylist.to/easylist/easylist.txt'')
      \<in> set EASYLIST_URLS"
    by (simp add: EASYLIST_URLS_def)
  have om: "loadMetadata unchangedRun (lit ''easylist.txt'') = Some ?om"
    by (simp add: loadMetadata_def unchangedRun_def laterRun_def sampleEnv_def)
  have nt: "\<not> throttled unchangedRun (lit ''easylist.txt'') (Some ?om)"
    by (simp add: throttled_def truthy_def sample_defs lit_def)
  have fetched: "fetch unchangedRun (lit ''https://easylist.to/easylist/easylist.txt'')
      = Inr (stampedList, stampedHeaders)"
    by (simp add: unchangedRun_def laterRun_def sampleEnv_def serveEasylist_def)
  have same: "\<not> reportedChanged (loadHashes unchangedRun (lit ''easylist.txt''))
        (detectChange unchangedRun (loadHashes unchangedRun (lit ''easylist.txt'')) (Some ?om)
           (calculateHash unchangedRun stampedList)
           (parseLastModified unchangedRun (clock unchangedRun (lit ''easylist.txt'') AtParse)
              (h_lastModified stampedHeaders) stampedList) stampedHeaders)"
    by (simp add: monitor_defs sample_defs lit_def Let_def)
  have entry: "?om\<lparr>m_lastChecked := Some (toISOString unchangedRun
        (clock unchangedRun (lit ''easylist.txt'') AtLastChecked))\<rparr>
      = \<lparr> m_lastModified = Some (lit ''2024-01-01T01:00:00.000Z''),
          m_etag = Some (lit ''abc123''), m_version = Some (lit ''1.2''),
          m_lastChecked = Some (lit ''2024-01-01T03:00:00.000Z''), m_size = Some 53 \<rparr>"
    by (simp add: monitor_defs sample_defs lit_def)
  from unchanged_keeps_metadata [OF mem om nt fetched same]
  have "newMetadata (final (checkForUpdates unchangedRun)) (lit ''easylist.txt'')
       = Some (?om\<lparr>m_lastChecked := Some (toISOString unchangedRun
            (clock unchangedRun (lit ''easylist.txt'') AtLastChecked))\<rparr>)"
    by (rule conjunct1)
  with entry nt om fetched show ?thesis by simp
qed

text \<open>
  C7.  A tracked resource whose fetch fails: the error is logged, no event is pushed
  for it and its entries in \<open>newHashes\<close> and \<open>newMetadata\<close> stay the loaded ones; the
  loop goes on with the remaining entries from the same variables.  The exit code does
  not depend on any fetch: it is 1 exactly when \<open>checkForUpdates\<close> throws or setting
  the outputs for GitHub Actions throws, and \<open>checkForUpdates\<close> throws only when a
  write of a state document or of the summary fails.
\<close>

theorem fetch_failure_is_local:
  assumes mem: "(filename, url) \<in> set EASYLIST_URLS"
    and nt: "\<not> throttled E filename (loadMetadata E filename)"
    and failed: "fetch E url = Inl err"
  shows "LogError filename (FetchError err) \<in> set (trace (final (checkForUpdates E)))
     \<and> filename \<notin> u_filename ` set (updatedLists (final (checkForUpdates E)))
     \<and> newHashes (final (checkForUpdates E)) filename = loadHashes E filename
     \<and> newMetadata (final (checkForUpdates E)) filename = loadMetadata E filename
     \<and> (\<forall>rest st. processEntries E (loadHashes E) (loadMetadata E) ((filename, url) # rest) st
           = processEntries E (loadHashes E) (loadMetadata E) rest
               (emit [Fetch url, LogError filename (FetchError err)] st))
     \<and> exitCode (main E)
         = (if returned (checkForUpdates E) = None \<or> (githubActions E \<and> \<not> actionsCoreOk E)
            then 1 else 0)
     \<and> (returned (checkForUpdates E) = None
          \<longrightarrow> \<not> saveHashesOk E \<or> \<not> saveMetadataOk E \<or> \<not> writeSummaryOk E)"
proof -
  have step: "\<And>st. processEntry E (loadHashes E) (loadMetadata E) st (filename, url)
      = emit [Fetch url, LogError filename (FetchError err)] st"
    using nt failed by (rule failed_step)
  have local: "filename \<notin> u_filename ` set (updatedLists (final (checkForUpdates E)))
     \<and> set [Fetch url, LogError filename (FetchError err)]
          \<subseteq> set (trace (final (checkForUpdates E)))
     \<and> newHashes (final (checkForUpdates E)) filename = loadHashes E filename
     \<and> newMetadata (final (checkForUpdates E)) filename = loadMetadata E filename"
    using step mem by (rule cycle_silent_entry)
  have rest: "\<forall>rest st. processEntries E (loadHashes E) (loadMetadata E) ((filename, url) # rest) st
           = processEntries E (loadHashes E) (loadMetadata E) rest
               (emit [Fetch url, LogError filename (FetchError err)] st)"
    by (simp add: step)
  have code: "exitCode (main E)
         = (if returned (checkForUpdates E) = None \<or> (githubActions E \<and> \<not> actionsCoreOk E)
            then 1 else 0)"
    by (simp add: main_def setOutputs_def Let_def split: option.splits)
  have thrown: "returned (checkForUpdates E) = None
          \<longrightarrow> \<not> saveHashesOk E \<or> \<not> saveMetadataOk E \<or> \<not> writeSummaryOk E"
    by (simp add: checkForUpdates_def persist_def)
  show ?thesis
    using local rest code thrown by simp
qed

text \<open>In \<open>easylistDownRun\<close> the first resource fails and the second one is updated.\<close>

theorem fetch_failure_is_local_witness:
  "\<not> throttled easylistDownRun (lit ''easylist.txt'')
        (loadMetadata easylistDownRun (lit ''easylist.txt''))
   \<and> fetch easylistDownRun (lit ''https://easylist.to/easylist/easylist.txt'')
        = Inl (lit ''HTTP 503: Service Unavailable'')
   \<and> LogError (lit ''easylist.txt'') (FetchError (lit ''HTTP 503: Service Unavailable''))
        \<in> set (trace (final (checkForUpdates easylistDownRun)))
   \<and> newHashes (final (checkForUpdates easylistDownRun)) (lit ''easylist.txt'') = None
   \<and> map u_filename (updatedLists (final (checkForUpdates easylistDownRun)))
        = [lit ''easyprivacy.txt'']
   \<and> exitCode (main easylistDownRun) = 0"
proof -
  have mem: "(lit ''easylist.txt'', lit ''https://easylist.to/easylist/easylist.txt'')
      \<in> set EASYLIST_URLS"
    by (simp add: EASYLIST_URLS_def)
  have nt: "\<not> throttled easylistDownRun (lit ''easylist.txt'')
        (loadMetadata easylistDownRun (lit ''easylist.txt''))"
    by (simp add: throttled_def loadMetadata_def sample_defs)
  have failed: "fetch easylistDownRun (lit ''https://easylist.to/easylist/easylist.txt'')
        = Inl (lit ''HTTP 503: Service Unavailable'')"
    by (simp add: sample_defs lit_def)
  have lh: "loadHashes easylistDownRun (lit ''easylist.txt'') = None"
    by (simp add: loadHashes_def sample_defs)
  have other: "map u_filename (updatedLists (final (checkForUpdates easylistDownRun)))
        = [lit ''easyprivacy.txt'']"
    by (simp add: monitor_defs sample_defs lit_def Let_def)
  have ret: "returned (checkForUpdates easylistDownRun) \<noteq> None"
    by (simp add: monitor_defs sample_defs lit_def Let_def)
  have gh: "\<not> githubActions easylistDownRun"
    by (simp add: sample_defs)
  note local = fetch_failure_is_local [OF mem nt failed]
  from local have logged:
    "LogError (lit ''easylist.txt'') (FetchError (lit ''HTTP 503: Service Unavailable''))
        \<in> set (trace (final (checkForUpdates easylistDownRun)))"
    by (rule conjunct1)
  from local have "newHashes (final (checkForUpdates easylistDownRun)) (lit ''easylist.txt'')
      = loadHashes easylistDownRun (lit ''easylist.txt'')"
    by blast
  with lh have kept: "newHashes (final (checkForUpdates easylistDownRun)) (lit ''easylist.txt'')
      = None"
    by simp
  from local have "exitCode (main easylistDownRun)
         = (if returned (checkForUpdates easylistDownRun) = None
               \<or> (githubActions easylistDownRun \<and> \<not> actionsCoreOk easylistDownRun)
            then 1 else 0)"
    by blast
  with ret gh have code: "exitCode (main easylistDownRun) = 0"
    by simp
  from nt failed logged kept other code show ?thesis
    by blast
qed

text \<open>
  C9, as stated: the recorded size is the byte count of the fetched content.  The code
  records \<open>content.length\<close>, the number of UTF-16 code units.  A first run that fetches
  the thirteen characters "! Title: caf" and U+00E9, fourteen bytes in UTF-8, records size 13 in
  the event and in the metadata entry.
\<close>

theorem size_is_not_byte_count:
  "fetch (firstRun accentedList) (lit ''https://easylist.to/easylist/easylist.txt'')
     = Inr (accentedList, noHeaders)
   \<and> utf8ByteLength accentedList = 14
   \<and> map u_size (updatedLists (final (checkForUpdates (firstRun accentedList)))) = [13]
   \<and> map_option m_size (newMetadata (final (checkForUpdates (firstRun accentedList)))
        (lit ''easylist.txt'')) = Some (Some 13)"
proof -
  have "fetch (firstRun accentedList) (lit ''https://easylist.to/easylist/easylist.txt'')
     = Inr (accentedList, noHeaders)"
    by (simp add: firstRun_def sampleEnv_def serveEasylist_def)
  moreover have "utf8ByteLength accentedList = 14"
    by (simp add: accentedList_def lit_def isHighSurrogate_def)
  moreover have "map u_size (updatedLists (final (checkForUpdates (firstRun accentedList))))
      = [13]"
    by (simp add: monitor_defs sample_defs lit_def Let_def)
  moreover have "map_option m_size (newMetadata (final (checkForUpdates (firstRun accentedList)))
        (lit ''easylist.txt'')) = Some (Some 13)"
    by (simp add: monitor_defs sample_defs lit_def Let_def)
  ultimately show ?thesis by blast
qed

text \<open>
  C9, amended.  For a tracked resource that is fetched, reported as changed and
  recorded (the effective time is a valid date and the list file is written), the one
  event pushed for it and its new metadata entry have \<open>size\<close> equal to the length of
  the content string in UTF-16 code units; that is the byte count when every code unit
  of the content is below U+0080.
\<close>

theorem size_is_string_length:
  assumes mem: "(filename, url) \<in> set EASYLIST_URLS"
    and nt: "\<not> throttled E filename (loadMetadata E filename)"
    and fetched: "fetch E url = Inr (content, hdrs)"
    and changed: "reportedChanged (loadHashes E filename)
        (detectChange E (loadHashes E filename) (loadMetadata E filename) (calculateHash E content)
           (parseLastModified E (clock E filename AtParse) (h_lastModified hdrs) content) hdrs)"
    and valid: "parseLastModified E (clock E filename AtParse) (h_lastModified hdrs) content
        = Some t"
    and written: "writeListOk E filename"
  shows "(\<exists>ev. filter (\<lambda>x. u_filename x = filename) (updatedLists (final (checkForUpdates E))) = [ev]
            \<and> u_size ev = length content)
     \<and> (\<exists>entry. newMetadata (final (checkForUpdates E)) filename = Some entry
            \<and> m_size entry = Some (length content))
     \<and> ((\<forall>c\<in>set content. c < 0x80) \<longrightarrow> length content = utf8ByteLength content)"
proof -
  let ?d = "detectChange E (loadHashes E filename) (loadMetadata E filename)
      (calculateHash E content) (Some t) hdrs"
  let ?ev = "\<lparr> u_filename = filename, u_url = url, u_hash = calculateHash E content,
      u_version = v_version (extractVersion content), u_lastModified = toISOString E t,
      u_serverLastModified = h_lastModified hdrs, u_etag = h_etag hdrs,
      u_size = length content, u_changeReason = snd ?d,
      u_expires = v_expires (extractVersion content) \<rparr>"
  have step: "\<And>st. processEntry E (loadHashes E) (loadMetadata E) st (filename, url)
      = recordUpdate E filename url content hdrs (calculateHash E content)
          (extractVersion content) (Some t) (snd ?d) (emit [Fetch url] st)"
    using nt fetched changed valid by (simp add: processEntry_def fetchList_def Let_def)
  have push: "\<And>st. updatedLists (processEntry E (loadHashes E) (loadMetadata E) st (filename, url))
      = updatedLists st @ [?ev]"
    using written by (simp add: step recordUpdate_def)
  have "filter (\<lambda>x. u_filename x = filename)
      (updatedLists (processEntries E (loadHashes E) (loadMetadata E) EASYLIST_URLS (initialState E)))
      = [?ev]"
    by (rule pushed_entry [OF push urls_distinct(1) mem]) (simp_all add: initialState_def)
  then have ev: "filter (\<lambda>x. u_filename x = filename) (updatedLists (final (checkForUpdates E)))
      = [?ev]"
    by (simp add: checkForUpdates_def persist_final)
  obtain st1 where "newMetadata (final (checkForUpdates E)) filename
       = newMetadata (processEntry E (loadHashes E) (loadMetadata E) st1 (filename, url)) filename"
    using cycle_key_local [OF mem] by blast
  then have entry: "\<exists>entry. newMetadata (final (checkForUpdates E)) filename = Some entry
            \<and> m_size entry = Some (length content)"
    using written by (simp add: step recordUpdate_def)
  have "u_size ?ev = length content" by simp
  with ev entry utf8ByteLength_ascii [of content] show ?thesis
    by (metis (no_types, lifting))
qed

text \<open>A first run that fetches the eighteen ASCII characters of \<open>plainList\<close>.\<close>

theorem size_is_string_length_witness:
  "\<not> throttled (firstRun plainList) (lit ''easylist.txt'')
        (loadMetadata (firstRun plainList) (lit ''easylist.txt''))
   \<and> fetch (firstRun plainList) (lit ''https://easylist.to/easylist/easylist.txt'')
        = Inr (plainList, noHeaders)
   \<and> list_all (\<lambda>c. c < 0x80) plainList
   \<and> (\<exists>ev. filter (\<lambda>x. u_filename x = lit ''easylist.txt'')
              (updatedLists (final (checkForUpdates (firstRun plainList)))) = [ev]
            \<and> u_size ev = 18)
   \<and> (\<exists>entry. newMetadata (final (checkForUpdates (firstRun plainList))) (lit ''easylist.txt'')
              = Some entry \<and> m_size entry = Some 18)
   \<and> utf8ByteLength plainList = 18"
proof -
  let ?E = "firstRun plainList"
  have mem: "(lit ''easylist.txt'', lit ''https://easylist.to/easylist/easylist.txt'')
      \<in> set EASYLIST_URLS"
    by (simp add: EASYLIST_URLS_def)
  have nt: "\<not> throttled ?E (lit ''easylist.txt'') (loadMetadata ?E (lit ''easylist.txt''))"
    by (simp add: throttled_def loadMetadata_def sample_defs)
  have fetched: "fetch ?E (lit ''https://easylist.to/easylist/easylist.txt'')
      = Inr (plainList, noHeaders)"
    by (simp add: sample_defs)
  have valid: "parseLastModified ?E (clock ?E (lit ''easylist.txt'') AtParse)
      (h_lastModified noHeaders) plainList = Some 1704078000000"
    by (simp add: monitor_defs sample_defs lit_def Let_def)
  have changed: "reportedChanged (loadHashes ?E (lit ''easylist.txt''))
        (detectChange ?E (loadHashes ?E (lit ''easylist.txt''))
           (loadMetadata ?E (lit ''easylist.txt'')) (calculateHash ?E plainList)
           (parseLastModified ?E (clock ?E (lit ''easylist.txt'') AtParse)
              (h_lastModified noHeaders) plainList) noHeaders)"
    unfolding valid by (simp add: monitor_defs sample_defs lit_def Let_def)
  have written: "writeListOk ?E (lit ''easylist.txt'')"
    by (simp add: sample_defs)
  have ascii: "\<forall>c\<in>set plainList. c < 0x80"
    by (simp add: plainList_def lit_def)
  have len: "length plainList = 18"
    by (simp add: plainList_def lit_def)
  have ascii': "list_all (\<lambda>c. c < 0x80) plainList"
    using ascii by (simp add: list_all_iff)
  show ?thesis
    using size_is_string_length [OF mem nt fetched changed valid written] nt fetched ascii ascii'
    by (simp add: len)
qed

text \<open>
  C10.  The loop starts from the loaded hash map, and at the end of the cycle the
  entry of every key for which no event was pushed (a resource that was unchanged,
  throttled or failed, or a key that is not tracked) is the loaded one, in
  \<open>newHashes\<close> and in every hash document the cycle writes.
\<close>

theorem unchanged_hash_entries_kept:
  "newHashes (initialState E) = loadHashes E
   \<and> (f \<notin> u_filename ` set (updatedLists (final (checkForUpdates E))) \<longrightarrow>
        newHashes (final (checkForUpdates E)) f = loadHashes E f
        \<and> (\<forall>m. SaveHashes m \<in> set (trace (final (checkForUpdates E)))
               \<longrightarrow> m f = loadHashes E f))"
proof -
  have "\<forall>f. f \<notin> u_filename ` set (updatedLists (initialState E))
          \<longrightarrow> newHashes (initialState E) f = loadHashes E f"
    by (simp add: initialState_def)
  then have "\<forall>f. f \<notin> u_filename ` set (updatedLists
        (processEntries E (loadHashes E) (loadMetadata E) EASYLIST_URLS (initialState E)))
      \<longrightarrow> newHashes (processEntries E (loadHashes E) (loadMetadata E) EASYLIST_URLS
             (initialState E)) f = loadHashes E f"
    by (rule processEntries_hashes)
  then have kept: "\<forall>f. f \<notin> u_filename ` set (updatedLists (final (checkForUpdates E)))
      \<longrightarrow> newHashes (final (checkForUpdates E)) f = loadHashes E f"
    by (simp add: checkForUpdates_def persist_final)
  have "newHashes (initialState E) = loadHashes E"
    by (simp add: initialState_def)
  with kept saved_maps(1) show ?thesis by blast
qed

text \<open>In \<open>mixedRun\<close>, \<open>easylist.txt\<close> is throttled while \<open>easyprivacy.txt\<close> is updated,
  and the hash document is written with the stored hash of \<open>easylist.txt\<close>.\<close>

theorem unchanged_hash_entries_kept_witness:
  "lit ''easylist.txt'' \<notin> u_filename ` set (updatedLists (final (checkForUpdates mixedRun)))
   \<and> map u_filename (updatedLists (final (checkForUpdates mixedRun))) = [lit ''easyprivacy.txt'']
   \<and> loadHashes mixedRun (lit ''easylist.txt'') = Some (sampleDigest stampedList)
   \<and> newHashes (final (checkForUpdates mixedRun)) (lit ''easylist.txt'')
        = Some (sampleDigest stampedList)
   \<and> SaveHashes (newHashes (final (checkForUpdates mixedRun)))
        \<in> set (trace (final (checkForUpdates mixedRun)))"
proof -
  have names: "map u_filename (updatedLists (final (checkForUpdates mixedRun)))
      = [lit ''easyprivacy.txt'']"
    by (simp add: monitor_defs sample_defs lit_def Let_def)
  have "u_filename ` set (updatedLists (final (checkForUpdates mixedRun)))
      = set (map u_filename (updatedLists (final (checkForUpdates mixedRun))))"
    by simp
  then have "u_filename ` set (updatedLists (final (checkForUpdates mixedRun)))
      = {lit ''easyprivacy.txt''}"
    unfolding names by simp
  then have out: "lit ''easylist.txt''
      \<notin> u_filename ` set (updatedLists (final (checkForUpdates mixedRun)))"
    by (simp add: lit_def)
  have lh: "loadHashes mixedRun (lit ''easylist.txt'') = Some (sampleDigest stampedList)"
    by (simp add: loadHashes_def mixedRun_def sampleEnv_def)
  have "updatedLists (final (checkForUpdates mixedRun)) \<noteq> []"
    using names by auto
  then have saved: "SaveHashes (newHashes (final (checkForUpdates mixedRun)))
      \<in> set (trace (final (checkForUpdates mixedRun)))"
    by (rule hashes_saved)
  from unchanged_hash_entries_kept [of mixedRun "lit ''easylist.txt''"] out
  have "newHashes (final (checkForUpdates mixedRun)) (lit ''easylist.txt'')
      = loadHashes mixedRun (lit ''easylist.txt'')"
    by blast
  with lh have kept: "newHashes (final (checkForUpdates mixedRun)) (lit ''easylist.txt'')
      = Some (sampleDigest stampedList)"
    by simp
  from out names lh kept saved show ?thesis
    by blast
qed


end
